theory Spec2Isabelle
  imports Complex_Main "HOL-Library.Sublist"
begin

chapter \<open>MediaWiki exporter and AnythingLLM uploader\<close>

text \<open>
  A shallow embedding of \<^verbatim>\<open>scripts/scrape_mediawiki.py\<close> and
  \<^verbatim>\<open>scripts/upload_to_anythingllm.py\<close>.

  Python's \<^verbatim>\<open>str\<close> is modelled by \<^typ>\<open>string\<close>: one \<^typ>\<open>char\<close> stands for one
  code point, so \<^const>\<open>length\<close> counts characters as \<^verbatim>\<open>len\<close> does; the code points
  covered are those below 256. Python's unbounded \<^verbatim>\<open>int\<close> is \<^typ>\<open>int\<close>. Network and
  file-system calls are modelled by their outcome, which is part of the input of the model.
\<close>

section \<open>Exporter: \<^verbatim>\<open>scrape_mediawiki.py\<close>\<close>

subsection \<open>\<^verbatim>\<open>sanitize_filename\<close>\<close>

text \<open>The character class \<^verbatim>\<open>[<>:"/\\|?*]\<close> of the first \<^verbatim>\<open>re.sub\<close>: nine characters.\<close>

definition problematic_chars :: "char list" where
  "problematic_chars =
     [CHR ''<'', CHR ''>'', CHR '':'', CHR 0x22, CHR ''/'', CHR 0x5C, CHR ''|'', CHR ''?'', CHR ''*'']"

text \<open>
  What \<^verbatim>\<open>\s\<close> matches in a \<^verbatim>\<open>str\<close> pattern, among the code points below 256:
  U+0009 to U+000D, U+001C to U+0020, U+0085 and U+00A0.
\<close>

definition is_space :: "char \<Rightarrow> bool" where
  "is_space c =
     (let n = (of_char c :: nat)
      in (9 \<le> n \<and> n \<le> 13) \<or> (28 \<le> n \<and> n \<le> 32) \<or> n = 133 \<or> n = 160)"

text \<open>\<^verbatim>\<open>re.sub(r'[<>:"/\\|?*]', '_', title)\<close>: every match is one character.\<close>

definition sub_problematic :: "string \<Rightarrow> string" where
  "sub_problematic s = map (\<lambda>c. if c \<in> set problematic_chars then CHR ''_'' else c) s"

text \<open>
  \<^verbatim>\<open>re.sub(r'\s+', '_', safe_name)\<close>: matches are found from the left and are greedy, so
  each maximal run of whitespace becomes one underscore.
\<close>

function sub_whitespace :: "string \<Rightarrow> string" where
  "sub_whitespace [] = []"
| "sub_whitespace (c # cs) =
     (if is_space c then CHR ''_'' # sub_whitespace (dropWhile is_space cs)
      else c # sub_whitespace cs)"
  by pat_completeness auto
termination
  by (relation "measure length") (auto simp: length_dropWhile_le less_Suc_eq_le)

text \<open>\<^verbatim>\<open>s.strip(chars)\<close>: drops the characters of \<open>chars\<close> from both ends.\<close>

definition py_strip :: "char list \<Rightarrow> string \<Rightarrow> string" where
  "py_strip chars s =
     rev (dropWhile (\<lambda>c. c \<in> set chars) (rev (dropWhile (\<lambda>c. c \<in> set chars) s)))"

definition sanitize_filename :: "string \<Rightarrow> string" where
  "sanitize_filename title =
     (let safe_name = sub_problematic title;
          safe_name = sub_whitespace safe_name;
          safe_name = py_strip ''._'' safe_name
      in if length safe_name > 200 then take 200 safe_name else safe_name)"

text \<open>The value of \<^verbatim>\<open>safe_name\<close> after the \<^verbatim>\<open>strip\<close>, before the length limit.\<close>

definition stripped_name :: "string \<Rightarrow> string" where
  "stripped_name title = py_strip ''._'' (sub_whitespace (sub_problematic title))"

text \<open>Whether a string begins, or ends, with one of the given characters.\<close>

definition starts_with_any :: "char list \<Rightarrow> string \<Rightarrow> bool" where
  "starts_with_any chars s = (case s of [] \<Rightarrow> False | c # _ \<Rightarrow> c \<in> set chars)"

definition ends_with_any :: "char list \<Rightarrow> string \<Rightarrow> bool" where
  "ends_with_any chars s = starts_with_any chars (rev s)"

subsection \<open>\<^verbatim>\<open>get_page_content\<close>\<close>

text \<open>
  A page handle of the wiki client. \<open>page_text\<close> is the outcome of \<^verbatim>\<open>page.text()\<close>:
  \<open>Inl\<close> the message of the exception it raises, \<open>Inr\<close> the wikitext. \<open>page_touched\<close> is
  \<open>None\<close> when the handle has no attribute \<^verbatim>\<open>touched\<close>, and otherwise the attribute as
  the f-string renders it.
\<close>

record page =
  page_name :: string
  page_text :: "string + string"
  page_touched :: "string option"

definition get_page_content :: "page \<Rightarrow> string option" where
  "get_page_content page =
     (case page_text page of
        Inl e \<Rightarrow> None
      | Inr text \<Rightarrow>
          Some (''# '' @ page_name page @ ''\<newline>\<newline>''
                @ text @ ''\<newline>\<newline>''
                @ ''---\<newline>''
                @ ''Source: MediaWiki\<newline>''
                @ ''Page: '' @ page_name page @ ''\<newline>''
                @ ''Last Modified: ''
                @ (case page_touched page of Some t \<Rightarrow> t | None \<Rightarrow> ''Unknown'')
                @ ''\<newline>''))"

subsection \<open>The export loop of \<^verbatim>\<open>scrape_mediawiki\<close>\<close>

text \<open>
  What the loop does that is visible from outside, in order: the progress line of a page
  (with the number \<open>i + 1\<close>), the warning of a failed fetch, a file written (name and
  content), a failed write caught by the loop's handler, and the line printed when the limit
  is reached.
\<close>

datatype export_event =
    Exporting int string
  | FetchWarning string
  | FileWritten string string
  | ProcessingError string
  | ReachedLimit

record export_state =
  exported_count :: int
  error_count :: int
  export_events :: "export_event list"

definition export_log :: "export_event \<Rightarrow> export_state \<Rightarrow> export_state" where
  "export_log e st = st\<lparr>export_events := export_events st @ [e]\<rparr>"

text \<open>
  \<^verbatim>\<open>limit and i >= limit\<close>: \<^verbatim>\<open>None\<close> and \<open>0\<close> are both falsy, so neither ever stops the
  loop.
\<close>

definition limit_reached :: "int option \<Rightarrow> int \<Rightarrow> bool" where
  "limit_reached limit i = (case limit of None \<Rightarrow> False | Some l \<Rightarrow> l \<noteq> 0 \<and> i \<ge> l)"

text \<open>
  The body of the loop after the limit test, for the page with index \<open>i\<close>. \<open>write_ok\<close> is
  the outcome of opening and writing the file: \<open>False\<close> when either raises.
\<close>

definition export_page :: "int \<Rightarrow> page \<Rightarrow> bool \<Rightarrow> export_state \<Rightarrow> export_state" where
  "export_page i page write_ok st =
     (let title = page_name page;
          st = export_log (Exporting (i + 1) title) st
      in case get_page_content page of
           None \<Rightarrow>
             (export_log (FetchWarning title) st)\<lparr>error_count := error_count st + 1\<rparr>
         | Some content \<Rightarrow>
             (let filename = sanitize_filename title @ ''.txt''
              in if write_ok
                 then (export_log (FileWritten filename content) st)
                        \<lparr>exported_count := exported_count st + 1\<rparr>
                 else (export_log (ProcessingError filename) st)
                        \<lparr>error_count := error_count st + 1\<rparr>))"

text \<open>\<^verbatim>\<open>for i, page in enumerate(pages)\<close>, each page paired with the outcome of its write.\<close>

fun export_loop :: "int option \<Rightarrow> int \<Rightarrow> (page \<times> bool) list \<Rightarrow> export_state \<Rightarrow> export_state" where
  "export_loop limit i [] st = st"
| "export_loop limit i ((page, write_ok) # rest) st =
     (if limit_reached limit i
      then export_log ReachedLimit st
      else export_loop limit (i + 1) rest (export_page i page write_ok st))"

definition scrape_pages :: "int option \<Rightarrow> (page \<times> bool) list \<Rightarrow> export_state" where
  "scrape_pages limit pages =
     export_loop limit 0 pages \<lparr>exported_count = 0, error_count = 0, export_events = []\<rparr>"

text \<open>Observations on a run: the pages processed, and the files written.\<close>

fun is_exporting :: "export_event \<Rightarrow> bool" where
  "is_exporting (Exporting i title) = True"
| "is_exporting _ = False"

fun is_file_written :: "export_event \<Rightarrow> bool" where
  "is_file_written (FileWritten filename content) = True"
| "is_file_written _ = False"

definition pages_processed :: "export_state \<Rightarrow> nat" where
  "pages_processed st = length (filter is_exporting (export_events st))"

definition files_written :: "export_state \<Rightarrow> nat" where
  "files_written st = length (filter is_file_written (export_events st))"

definition fetch_fails :: "page \<times> bool \<Rightarrow> bool" where
  "fetch_fails v = (get_page_content (fst v) = None)"

section \<open>Uploader: \<^verbatim>\<open>upload_to_anythingllm.py\<close>\<close>

subsection \<open>Parsed JSON and Python's operations on it\<close>

text \<open>
  What \<^verbatim>\<open>resp.json()\<close> can return. An object keeps its members in document order; where
  a key occurs twice the parser keeps the last value.
\<close>

datatype json =
    JNull
  | JBool bool
  | JNum rat
  | JStr string
  | JArr "json list"
  | JObj "(string \<times> json) list"

datatype py_error = AttributeError | IndexError | KeyError | TypeError | NotADirectoryError

text \<open>Truth value testing, as in \<^verbatim>\<open>if not result\<close> and \<^verbatim>\<open>if doc_location\<close>.\<close>

fun truthy :: "json \<Rightarrow> bool" where
  "truthy JNull = False"
| "truthy (JBool b) = b"
| "truthy (JNum n) = (n \<noteq> 0)"
| "truthy (JStr s) = (s \<noteq> [])"
| "truthy (JArr xs) = (xs \<noteq> [])"
| "truthy (JObj members) = (members \<noteq> [])"

text \<open>\<^verbatim>\<open>x.get(key, dflt)\<close>: only a dict has the method.\<close>

fun py_get :: "json \<Rightarrow> string \<Rightarrow> json \<Rightarrow> py_error + json" where
  "py_get (JObj members) key dflt =
     (case map_of (rev members) key of None \<Rightarrow> Inr dflt | Some v \<Rightarrow> Inr v)"
| "py_get _ key dflt = Inl AttributeError"

text \<open>
  \<^verbatim>\<open>x[0]\<close>: the first element of a list or the first character of a string, IndexError
  when it is empty; KeyError on a dict, whose keys are all strings; TypeError on
  \<^verbatim>\<open>None\<close>, a boolean or a number.
\<close>

fun py_item0 :: "json \<Rightarrow> py_error + json" where
  "py_item0 (JArr []) = Inl IndexError"
| "py_item0 (JArr (x # xs)) = Inr x"
| "py_item0 (JStr []) = Inl IndexError"
| "py_item0 (JStr (c # cs)) = Inr (JStr [c])"
| "py_item0 (JObj members) = Inl KeyError"
| "py_item0 _ = Inl TypeError"

subsection \<open>The client's calls\<close>

text \<open>
  One candidate file together with what the service answers for it. \<open>upload_outcome\<close> is
  \<open>Inl\<close> the message of the exception raised inside \<^verbatim>\<open>upload_document\<close> (the file
  cannot be opened, the request fails or times out, the status is an error, the body is not
  JSON), and \<open>Inr\<close> the parsed body otherwise. \<open>embedding_ok\<close> is \<open>False\<close> when the request
  of \<^verbatim>\<open>add_document_to_workspace\<close> raises.
\<close>

record file_run =
  file_name :: string
  upload_outcome :: "string + json"
  embedding_ok :: bool

definition upload_document :: "file_run \<Rightarrow> json" where
  "upload_document f = (case upload_outcome f of Inl e \<Rightarrow> JObj [] | Inr body \<Rightarrow> body)"

definition add_document_to_workspace :: "file_run \<Rightarrow> json \<Rightarrow> bool" where
  "add_document_to_workspace f document_location = embedding_ok f"

subsection \<open>The upload loop of \<^verbatim>\<open>upload_documents\<close>\<close>

text \<open>
  What the loop does that is visible from outside, in order: the upload of a file, the
  embedding request for a location, and \<^verbatim>\<open>time.sleep\<close> with its number of seconds.
\<close>

datatype upload_event = Uploading string | Embedding json | Sleep rat

record upload_state =
  uploaded :: int
  embedded :: int
  upload_events :: "upload_event list"

definition upload_log :: "upload_event \<Rightarrow> upload_state \<Rightarrow> upload_state" where
  "upload_log e st = st\<lparr>upload_events := upload_events st @ [e]\<rparr>"

text \<open>\<^verbatim>\<open>result.get('documents', [{}])[0].get('location')\<close>\<close>

definition doc_location_of :: "json \<Rightarrow> py_error + json" where
  "doc_location_of result =
     (case py_get result ''documents'' (JArr [JObj []]) of
        Inl e \<Rightarrow> Inl e
      | Inr documents \<Rightarrow>
          (case py_item0 documents of
             Inl e \<Rightarrow> Inl e
           | Inr document \<Rightarrow> py_get document ''location'' JNull))"

text \<open>
  One iteration. \<open>Inr\<close> is the state with which the loop goes on to the next file;
  \<open>Inl\<close> is an exception that nothing catches, with the state it leaves behind.
\<close>

definition upload_file :: "file_run \<Rightarrow> upload_state \<Rightarrow> (py_error \<times> upload_state) + upload_state" where
  "upload_file f st =
     (let st = upload_log (Uploading (file_name f)) st;
          result = upload_document f
      in if \<not> truthy result then Inr st
         else
           (let st = st\<lparr>uploaded := uploaded st + 1\<rparr>
            in case doc_location_of result of
                 Inl e \<Rightarrow> Inl (e, st)
               | Inr doc_location \<Rightarrow>
                   (let st =
                      (if truthy doc_location
                       then (let st = upload_log (Embedding doc_location) st
                             in if add_document_to_workspace f doc_location
                                then st\<lparr>embedded := embedded st + 1\<rparr>
                                else st)
                       else st)
                    in Inr (upload_log (Sleep (1/2)) st))))"

fun upload_loop :: "file_run list \<Rightarrow> upload_state \<Rightarrow> (py_error \<times> upload_state) + upload_state" where
  "upload_loop [] st = Inr st"
| "upload_loop (f # files) st =
     (case upload_file f st of
        Inl raised \<Rightarrow> Inl raised
      | Inr st' \<Rightarrow> upload_loop files st')"

definition upload_all :: "file_run list \<Rightarrow> (py_error \<times> upload_state) + upload_state" where
  "upload_all files = upload_loop files \<lparr>uploaded = 0, embedded = 0, upload_events = []\<rparr>"

text \<open>The state in which a run ends, whether the loop finished or an exception left it.\<close>

fun state_of :: "(py_error \<times> upload_state) + upload_state \<Rightarrow> upload_state" where
  "state_of (Inl (e, st)) = st"
| "state_of (Inr st) = st"

subsection \<open>The candidate files\<close>

text \<open>
  The documents directory as the file system shows it: what a name resolves to is a regular
  file, a directory with its entries, or something else.
\<close>

datatype fs_node = RegularFile | Directory "(string \<times> fs_node) list" | OtherNode

text \<open>A path is the list of its components below the documents directory.\<close>

fun lookup_path :: "fs_node \<Rightarrow> string list \<Rightarrow> fs_node option" where
  "lookup_path node [] = Some node"
| "lookup_path (Directory entries) (c # cs) =
     (case map_of entries c of None \<Rightarrow> None | Some node \<Rightarrow> lookup_path node cs)"
| "lookup_path _ (c # cs) = None"

definition is_file :: "fs_node \<Rightarrow> string list \<Rightarrow> bool" where
  "is_file docs p = (lookup_path docs p = Some RegularFile)"

text \<open>\<^verbatim>\<open>docs_path.iterdir()\<close>: one path for each entry of the directory itself.\<close>

fun iterdir :: "fs_node \<Rightarrow> py_error + string list list" where
  "iterdir (Directory entries) = Inr (map (\<lambda>entry. [fst entry]) entries)"
| "iterdir _ = Inl NotADirectoryError"

text \<open>\<^verbatim>\<open>s.rfind(c)\<close>: the index of the last occurrence, \<open>-1\<close> when there is none.\<close>

definition rfind :: "char \<Rightarrow> string \<Rightarrow> int" where
  "rfind c s =
     (if c \<in> set s
      then int (length s) - 1 - int (length (takeWhile (\<lambda>x. x \<noteq> c) (rev s)))
      else - 1)"

text \<open>
  \<^verbatim>\<open>Path.suffix\<close> of pathlib, on the last component: from its last dot on, unless that dot
  is the first or the last character.
\<close>

definition path_suffix :: "string list \<Rightarrow> string" where
  "path_suffix p =
     (let name = (if p = [] then [] else last p);
          i = rfind (CHR ''.'') name
      in if 0 < i \<and> i < int (length name) - 1 then drop (nat i) name else [])"

text \<open>\<^verbatim>\<open>str.lower\<close> on code points below 256: A to Z, and U+00C0 to U+00DE except U+00D7.\<close>

definition lower_char :: "char \<Rightarrow> char" where
  "lower_char c =
     (let n = (of_char c :: nat)
      in if (65 \<le> n \<and> n \<le> 90) \<or> (192 \<le> n \<and> n \<le> 222 \<and> n \<noteq> 215)
         then char_of (n + 32) else c)"

definition lower :: "string \<Rightarrow> string" where
  "lower s = map lower_char s"

definition extensions :: "string list" where
  "extensions = [''.txt'', ''.md'', ''.pdf'', ''.docx'', ''.doc'', ''.html'', ''.htm'']"

text \<open>
  \<^verbatim>\<open>[f for f in docs_path.iterdir() if f.is_file() and f.suffix.lower() in extensions]\<close>
\<close>

definition candidate_files :: "fs_node \<Rightarrow> py_error + string list list" where
  "candidate_files docs =
     (case iterdir docs of
        Inl e \<Rightarrow> Inl e
      | Inr entries \<Rightarrow>
          Inr [f \<leftarrow> entries. is_file docs f \<and> lower (path_suffix f) \<in> set extensions])"

section \<open>Sample inputs\<close>

text \<open>Three pages whose writes succeed; the fetch of the second one fails.\<close>

definition wiki_pages :: "(page \<times> bool) list" where
  "wiki_pages =
     [(\<lparr>page_name = ''Main Page'', page_text = Inr ''Welcome'', page_touched = Some ''2024''\<rparr>, True),
      (\<lparr>page_name = ''Broken'', page_text = Inl ''timeout'', page_touched = None\<rparr>, True),
      (\<lparr>page_name = ''FAQ: Setup?'', page_text = Inr ''Q and A'', page_touched = None\<rparr>, True)]"

text \<open>
  A file the service accepts and embeds; a file whose upload request fails; and a file for
  which the service answers with an empty list of documents.
\<close>

definition accepted_file :: "string \<Rightarrow> string \<Rightarrow> file_run" where
  "accepted_file name location =
     \<lparr>file_name = name,
      upload_outcome = Inr (JObj [(''success'', JBool True), (''error'', JNull),
                                  (''documents'', JArr [JObj [(''location'', JStr location)]])]),
      embedding_ok = True\<rparr>"

definition failed_file :: "string \<Rightarrow> file_run" where
  "failed_file name =
     \<lparr>file_name = name, upload_outcome = Inl ''500 Server Error'', embedding_ok = True\<rparr>"

definition no_documents_file :: "string \<Rightarrow> file_run" where
  "no_documents_file name =
     \<lparr>file_name = name,
      upload_outcome = Inr (JObj [(''success'', JBool True), (''error'', JNull),
                                  (''documents'', JArr [])]),
      embedding_ok = True\<rparr>"

text \<open>A documents directory with files of several kinds and two subdirectories.\<close>

definition sample_docs :: fs_node where
  "sample_docs = Directory
     [(''a.txt'', RegularFile), (''b.md'', RegularFile), (''c.exe'', RegularFile),
      (''Report.PDF'', RegularFile), (''.txt'', RegularFile),
      (''notes.txt'', Directory [(''d.txt'', RegularFile)]),
      (''old'', Directory [(''e.html'', RegularFile)])]"

section \<open>Theorems on the exporter\<close>

subsection \<open>The filename sanitizer\<close>

lemma sanitize_filename_stripped:
  "sanitize_filename title =
     (if length (stripped_name title) > 200 then take 200 (stripped_name title)
      else stripped_name title)"
  by (simp add: sanitize_filename_def stripped_name_def Let_def)

lemma set_sub_problematic: "set (sub_problematic s) \<inter> set problematic_chars = {}"
  by (auto simp: sub_problematic_def problematic_chars_def)

lemma length_sub_problematic: "length (sub_problematic s) = length s"
  by (simp add: sub_problematic_def)

lemma set_sub_whitespace: "set (sub_whitespace s) \<subseteq> insert (CHR ''_'') (set s)"
proof (induction s rule: sub_whitespace.induct)
  case 1
  show ?case by simp
next
  case (2 c cs)
  show ?case
  proof (cases "is_space c")
    case True
    have "set (dropWhile is_space cs) \<subseteq> set cs"
      by (auto dest: set_dropWhileD)
    with 2(1)[OF True] True show ?thesis by auto
  next
    case False
    with 2(2)[OF False] show ?thesis by auto
  qed
qed

lemma length_sub_whitespace: "length (sub_whitespace s) \<le> length s"
proof (induction s rule: sub_whitespace.induct)
  case 1
  show ?case by simp
next
  case (2 c cs)
  show ?case
  proof (cases "is_space c")
    case True
    have "length (dropWhile is_space cs) \<le> length cs"
      by (rule length_dropWhile_le)
    with 2(1)[OF True] True show ?thesis by simp
  next
    case False
    with 2(2)[OF False] show ?thesis by simp
  qed
qed

lemma set_py_strip: "set (py_strip chars s) \<subseteq> set s"
  unfolding py_strip_def by (auto dest!: set_dropWhileD)

lemma length_py_strip: "length (py_strip chars s) \<le> length s"
proof -
  have "length (py_strip chars s) \<le> length (dropWhile (\<lambda>c. c \<in> set chars) s)"
    unfolding py_strip_def length_rev
    by (rule order_trans[OF length_dropWhile_le]) simp
  also have "\<dots> \<le> length s" by (rule length_dropWhile_le)
  finally show ?thesis .
qed

lemma dropWhile_no_leading:
  "\<not> starts_with_any chars (dropWhile (\<lambda>c. c \<in> set chars) xs)"
  by (induction xs) (simp_all add: starts_with_any_def)

lemma starts_with_any_append:
  "starts_with_any chars ys \<Longrightarrow> starts_with_any chars (ys @ zs)"
  by (cases ys) (simp_all add: starts_with_any_def)

lemma py_strip_no_trailing: "\<not> ends_with_any chars (py_strip chars s)"
  unfolding ends_with_any_def py_strip_def rev_rev_ident
  by (rule dropWhile_no_leading)

lemma py_strip_no_leading: "\<not> starts_with_any chars (py_strip chars s)"
proof
  let ?P = "\<lambda>c. c \<in> set chars"
  let ?xs = "dropWhile ?P s"
  assume "starts_with_any chars (py_strip chars s)"
  then have "starts_with_any chars (py_strip chars s @ rev (takeWhile ?P (rev ?xs)))"
    by (rule starts_with_any_append)
  moreover have "py_strip chars s @ rev (takeWhile ?P (rev ?xs)) = ?xs"
  proof -
    have "rev (takeWhile ?P (rev ?xs) @ dropWhile ?P (rev ?xs)) = ?xs"
      by simp
    then show ?thesis
      unfolding py_strip_def rev_append .
  qed
  ultimately have "starts_with_any chars ?xs" by simp
  then show False by (simp add: dropWhile_no_leading)
qed

lemma starts_with_any_take:
  "\<not> starts_with_any chars s \<Longrightarrow> \<not> starts_with_any chars (take n s)"
  by (cases s; cases n) (auto simp: starts_with_any_def)

lemma sanitize_no_problematic:
  "set (sanitize_filename title) \<inter> set problematic_chars = {}"
proof -
  have us: "CHR ''_'' \<notin> set problematic_chars"
    by (simp add: problematic_chars_def)
  have "set (stripped_name title) \<subseteq> insert (CHR ''_'') (set (sub_problematic title))"
    unfolding stripped_name_def
    using set_py_strip set_sub_whitespace by (rule order_trans)
  with us set_sub_problematic[of title]
  have "set (stripped_name title) \<inter> set problematic_chars = {}" by auto
  moreover have "set (take 200 (stripped_name title)) \<subseteq> set (stripped_name title)"
    by (rule set_take_subset)
  ultimately show ?thesis
    unfolding sanitize_filename_stripped by auto
qed

lemma sanitize_length: "length (sanitize_filename title) \<le> 200"
  unfolding sanitize_filename_stripped by simp

lemma stripped_name_length: "length (stripped_name title) \<le> length title"
proof -
  have "length (stripped_name title) \<le> length (sub_whitespace (sub_problematic title))"
    unfolding stripped_name_def by (rule length_py_strip)
  also have "\<dots> \<le> length (sub_problematic title)" by (rule length_sub_whitespace)
  finally show ?thesis by (simp add: length_sub_problematic)
qed

text \<open>
  Claim C2, as stated: sanitizing \<^verbatim>\<open>"Hello/World: Test?"\<close> returns \<^verbatim>\<open>"Hello_World_Test"\<close>.
  It does not: the colon and the space that follows it are replaced by two different
  substitutions, one underscore each, and nothing merges adjacent underscores.
\<close>

theorem sanitize_hello_world_not_single_underscore:
  "sanitize_filename ''Hello/World: Test?'' \<noteq> ''Hello_World_Test''"
  by code_simp

text \<open>
  Claim C2, amended: sanitizing \<^verbatim>\<open>"Hello/World: Test?"\<close> returns
  \<^verbatim>\<open>"Hello_World__Test"\<close>, with two underscores between \<^verbatim>\<open>World\<close> and \<^verbatim>\<open>Test\<close>.
\<close>

theorem sanitize_hello_world:
  "sanitize_filename ''Hello/World: Test?'' = ''Hello_World__Test''"
  by code_simp

text \<open>
  Claim C3, as stated: the sanitizer's output never begins or ends with an underscore or a
  period. It fails for a trailing underscore: the strip comes before the cut to 200
  characters, and the cut can end on an underscore. The title here is 199 times \<^verbatim>\<open>a\<close>,
  then \<^verbatim>\<open>_b\<close>.
\<close>

theorem sanitize_trailing_underscore_after_cut:
  "ends_with_any ''._'' (sanitize_filename (replicate 199 (CHR ''a'') @ ''_b''))"
  by code_simp

text \<open>
  Claim C3, amended: for every title, the sanitizer's output does not begin with an
  underscore or a period; and it does not end with one whenever the name is at most 200
  characters long after the strip, so that nothing is cut. The name after the strip is never
  longer than the title, so this covers every title of at most 200 characters.
\<close>

theorem sanitize_no_leading_no_trailing_uncut:
  "\<not> starts_with_any ''._'' (sanitize_filename title)
   \<and> (length (stripped_name title) \<le> 200 \<longrightarrow> \<not> ends_with_any ''._'' (sanitize_filename title))
   \<and> length (stripped_name title) \<le> length title"
proof (intro conjI impI)
  have "\<not> starts_with_any ''._'' (stripped_name title)"
    unfolding stripped_name_def by (rule py_strip_no_leading)
  then show "\<not> starts_with_any ''._'' (sanitize_filename title)"
    unfolding sanitize_filename_stripped by (simp add: starts_with_any_take)
next
  assume "length (stripped_name title) \<le> 200"
  then have "sanitize_filename title = stripped_name title"
    unfolding sanitize_filename_stripped by simp
  then show "\<not> ends_with_any ''._'' (sanitize_filename title)"
    unfolding stripped_name_def by (simp add: py_strip_no_trailing)
next
  show "length (stripped_name title) \<le> length title" by (rule stripped_name_length)
qed

theorem sanitize_no_leading_no_trailing_uncut_witness:
  "length (stripped_name ''_.My Page: v1.0._'') \<le> 200
   \<and> sanitize_filename ''_.My Page: v1.0._'' = ''My_Page__v1.0''
   \<and> \<not> starts_with_any ''._'' (sanitize_filename ''_.My Page: v1.0._'')
   \<and> \<not> ends_with_any ''._'' (sanitize_filename ''_.My Page: v1.0._'')"
proof -
  have h: "length (stripped_name ''_.My Page: v1.0._'') \<le> 200" by code_simp
  have v: "sanitize_filename ''_.My Page: v1.0._'' = ''My_Page__v1.0''" by code_simp
  from sanitize_no_leading_no_trailing_uncut[of "''_.My Page: v1.0._''"] h v
  show ?thesis by simp
qed

text \<open>
  Claim C4: for every title, the sanitizer's output contains none of the nine characters
  \<^verbatim>\<open>< > : " / \ | ? *\<close>, and it is at most 200 characters long.
\<close>

theorem sanitize_no_problematic_chars_and_short:
  "set (sanitize_filename title) \<inter> set problematic_chars = {}
   \<and> length (sanitize_filename title) \<le> 200"
  using sanitize_no_problematic sanitize_length by simp

theorem sanitize_no_problematic_chars_and_short_witness:
  "set (sanitize_filename ''a<b>c:d|e?f*g'') \<inter> set problematic_chars = {}
   \<and> length (sanitize_filename ''a<b>c:d|e?f*g'') \<le> 200"
  using sanitize_no_problematic_chars_and_short[of "''a<b>c:d|e?f*g''"] by simp

subsection \<open>The content formatter\<close>

text \<open>
  Claim C8: whenever the content fetch succeeds, \<^verbatim>\<open>get_page_content\<close> returns a document
  that contains the title and the raw content as they are, and that contains \<^verbatim>\<open>Unknown\<close>
  when the page has no last-modified marker.
\<close>

theorem get_page_content_contains:
  assumes "page_text page = Inr wikitext"
  shows "\<exists>content. get_page_content page = Some content
           \<and> sublist (page_name page) content
           \<and> sublist wikitext content
           \<and> (page_touched page = None \<longrightarrow> sublist ''Unknown'' content)"
proof -
  let ?head = "''# '' @ page_name page @ ''\<newline>\<newline>''"
  let ?foot = "''\<newline>\<newline>'' @ ''---\<newline>'' @ ''Source: MediaWiki\<newline>''
                @ ''Page: '' @ page_name page @ ''\<newline>'' @ ''Last Modified: ''"
  let ?stamp = "case page_touched page of Some t \<Rightarrow> t | None \<Rightarrow> ''Unknown''"
  let ?content = "?head @ wikitext @ ?foot @ ?stamp @ ''\<newline>''"
  have c: "get_page_content page = Some ?content"
    unfolding get_page_content_def assms by (simp only: sum.case append_assoc)
  have title: "sublist (page_name page) ?content"
    unfolding append_assoc by (rule sublist_appendI)
  have body: "sublist wikitext ?content"
    by (rule sublist_appendI)
  have stamp: "sublist ''Unknown'' ?content" if "page_touched page = None"
  proof -
    have "sublist ''Unknown'' ((?head @ wikitext @ ?foot) @ ''Unknown'' @ ''\<newline>'')"
      by (rule sublist_appendI)
    then show ?thesis
      unfolding that option.case append_assoc .
  qed
  show ?thesis
  proof (intro exI conjI impI)
    show "get_page_content page = Some ?content" by (fact c)
    show "sublist (page_name page) ?content" by (fact title)
    show "sublist wikitext ?content" by (fact body)
    show "sublist ''Unknown'' ?content" if "page_touched page = None"
      using that by (rule stamp)
  qed
qed

theorem get_page_content_contains_witness:
  "page_text \<lparr>page_name = ''FAQ'', page_text = Inr ''Q and A'', page_touched = None\<rparr>
     = Inr ''Q and A''
   \<and> get_page_content \<lparr>page_name = ''FAQ'', page_text = Inr ''Q and A'', page_touched = None\<rparr>
     = Some ''# FAQ\<newline>\<newline>Q and A\<newline>\<newline>---\<newline>Source: MediaWiki\<newline>Page: FAQ\<newline>Last Modified: Unknown\<newline>''
   \<and> sublist ''FAQ''
        ''# FAQ\<newline>\<newline>Q and A\<newline>\<newline>---\<newline>Source: MediaWiki\<newline>Page: FAQ\<newline>Last Modified: Unknown\<newline>''
   \<and> sublist ''Q and A''
        ''# FAQ\<newline>\<newline>Q and A\<newline>\<newline>---\<newline>Source: MediaWiki\<newline>Page: FAQ\<newline>Last Modified: Unknown\<newline>''
   \<and> sublist ''Unknown''
        ''# FAQ\<newline>\<newline>Q and A\<newline>\<newline>---\<newline>Source: MediaWiki\<newline>Page: FAQ\<newline>Last Modified: Unknown\<newline>''"
proof -
  let ?page = "\<lparr>page_name = ''FAQ'', page_text = Inr ''Q and A'', page_touched = None\<rparr>"
  let ?doc = "''# FAQ\<newline>\<newline>Q and A\<newline>\<newline>---\<newline>Source: MediaWiki\<newline>Page: FAQ\<newline>Last Modified: Unknown\<newline>''"
  have fetched: "page_text ?page = Inr ''Q and A''" by simp
  have name: "page_name ?page = ''FAQ''" by simp
  have touched: "page_touched ?page = None" by simp
  have doc: "get_page_content ?page = Some ?doc"
    by (simp add: get_page_content_def)
  have "\<exists>content. get_page_content ?page = Some content
           \<and> sublist (page_name ?page) content
           \<and> sublist ''Q and A'' content
           \<and> (page_touched ?page = None \<longrightarrow> sublist ''Unknown'' content)"
    by (rule get_page_content_contains[OF fetched])
  then obtain content
    where c: "get_page_content ?page = Some content"
      and t: "sublist (page_name ?page) content"
      and b: "sublist ''Q and A'' content"
      and u: "page_touched ?page = None \<longrightarrow> sublist ''Unknown'' content"
    by (elim exE conjE)
  from c have eq: "content = ?doc" unfolding doc by (simp only: option.inject)
  from t have t': "sublist ''FAQ'' ?doc" unfolding name eq .
  from b have b': "sublist ''Q and A'' ?doc" unfolding eq .
  from u touched have "sublist ''Unknown'' content" by (rule mp)
  then have u': "sublist ''Unknown'' ?doc" unfolding eq .
  from fetched doc t' b' u' show ?thesis by (intro conjI)
qed

subsection \<open>The export loop\<close>

lemma pages_processed_log:
  "pages_processed (export_log e st) = pages_processed st + (if is_exporting e then 1 else 0)"
  by (simp add: pages_processed_def export_log_def)

lemma pages_processed_export_page:
  "pages_processed (export_page i page write_ok st) = pages_processed st + 1"
  by (simp add: export_page_def Let_def pages_processed_def export_log_def split: option.splits)

lemma files_written_export_page:
  "files_written (export_page i page True st) =
     files_written st + (if get_page_content page = None then 0 else 1)"
  by (simp add: export_page_def Let_def files_written_def export_log_def split: option.splits)

lemma error_count_export_page:
  "error_count (export_page i page True st) =
     error_count st + (if get_page_content page = None then 1 else 0)"
  by (simp add: export_page_def Let_def export_log_def split: option.splits)

lemma exported_count_export_page:
  "exported_count (export_page i page True st) =
     exported_count st + (if get_page_content page = None then 0 else 1)"
  by (simp add: export_page_def Let_def export_log_def split: option.splits)

text \<open>With a limit other than 0, the loop runs until the index reaches the limit.\<close>

lemma export_loop_processed:
  "l \<noteq> 0 \<Longrightarrow>
   pages_processed (export_loop (Some l) i pages st) =
     pages_processed st + min (length pages) (nat (l - i))"
proof (induction pages arbitrary: i st)
  case Nil
  show ?case by simp
next
  case (Cons v pages)
  obtain page write_ok where v: "v = (page, write_ok)" by (cases v)
  show ?case
  proof (cases "limit_reached (Some l) i")
    case True
    then have "nat (l - i) = 0" by (simp add: limit_reached_def)
    with True v show ?thesis by (simp add: pages_processed_log)
  next
    case False
    with Cons.prems have lt: "i < l" by (simp add: limit_reached_def)
    then have "nat (l - i) = Suc (nat (l - (i + 1)))" by simp
    with False v Cons.IH[OF Cons.prems] show ?thesis
      by (simp add: pages_processed_export_page)
  qed
qed

lemma export_limit_positive:
  assumes "0 < l" and "l < int (length pages)"
  shows "pages_processed (scrape_pages (Some l) pages) = nat l"
proof -
  from assms have "min (length pages) (nat l) = nat l" by simp
  with assms(1) export_loop_processed[of l 0 pages] show ?thesis
    by (simp add: scrape_pages_def pages_processed_def)
qed

text \<open>
  Claim C5: with a limit \<open>L\<close> below the number of pages, \<open>L = 0\<close> included, the loop
  processes exactly \<open>L\<close> pages and stops. For \<open>0 < L\<close> this is \<open>export_limit_positive\<close>.
  For \<open>L = 0\<close> the code does otherwise: \<^verbatim>\<open>limit and i >= limit\<close> is falsy when the limit is
  0, so the loop never stops early. Here the limit is 0 and all three pages are processed.
\<close>

theorem export_limit_zero_processes_all:
  "pages_processed (scrape_pages (Some 0) wiki_pages) = 3
   \<and> ReachedLimit \<notin> set (export_events (scrape_pages (Some 0) wiki_pages))"
  by code_simp

lemma export_loop_unlimited:
  assumes "\<And>j. i \<le> j \<Longrightarrow> j < i + int (length pages) \<Longrightarrow> \<not> limit_reached limit j"
      and "\<forall>v \<in> set pages. snd v"
  shows "files_written (export_loop limit i pages st) =
           files_written st + length (filter (\<lambda>v. \<not> fetch_fails v) pages)
         \<and> exported_count (export_loop limit i pages st) =
           exported_count st + int (length (filter (\<lambda>v. \<not> fetch_fails v) pages))
         \<and> error_count (export_loop limit i pages st) =
           error_count st + int (length (filter fetch_fails pages))"
  using assms
proof (induction pages arbitrary: i st)
  case Nil
  show ?case by simp
next
  case (Cons v pages)
  obtain page where v: "v = (page, True)" using Cons.prems(2) by (cases v) auto
  have here: "\<not> limit_reached limit i" using Cons.prems(1)[of i] by simp
  have later: "\<And>j. i + 1 \<le> j \<Longrightarrow> j < (i + 1) + int (length pages) \<Longrightarrow> \<not> limit_reached limit j"
    using Cons.prems(1) by simp
  have writes: "\<forall>v \<in> set pages. snd v" using Cons.prems(2) by simp
  note IH = Cons.IH[OF later writes, where st = "export_page i page True st"]
  show ?case
    using IH here
    by (simp add: v fetch_fails_def files_written_export_page
          exported_count_export_page error_count_export_page)
qed

lemma length_filter_complement:
  "length (filter (\<lambda>v. \<not> P v) xs) = length xs - length (filter P xs)"
proof -
  have "length (filter P xs) + length (filter (\<lambda>v. \<not> P v) xs) = length xs"
    by (rule sum_length_filter_compl)
  then show ?thesis by simp
qed

text \<open>
  Claim C6: in a run of the export loop over \<open>N\<close> page handles (no limit cuts the run short)
  of which \<open>M\<close> fail the content fetch, and where every write succeeds, exactly \<open>N - M\<close>
  files are written and the error counter ends at \<open>M\<close>; the count of exported pages ends
  at \<open>N - M\<close> as well.
\<close>

theorem export_counts:
  assumes "limit = None \<or> limit = Some 0 \<or> (\<exists>l. limit = Some l \<and> int (length pages) \<le> l)"
      and "\<forall>v \<in> set pages. snd v"
  shows "files_written (scrape_pages limit pages) =
           length pages - length (filter fetch_fails pages)
         \<and> error_count (scrape_pages limit pages) = int (length (filter fetch_fails pages))
         \<and> exported_count (scrape_pages limit pages) =
           int (length pages) - int (length (filter fetch_fails pages))"
proof -
  have free: "\<And>j. 0 \<le> j \<Longrightarrow> j < 0 + int (length pages) \<Longrightarrow> \<not> limit_reached limit j"
    using assms(1) by (auto simp: limit_reached_def)
  have le: "length (filter fetch_fails pages) \<le> length pages" by (rule length_filter_le)
  from export_loop_unlimited[OF free assms(2)] le show ?thesis
    unfolding scrape_pages_def
    by (simp add: files_written_def length_filter_complement)
qed

theorem export_counts_witness:
  "length wiki_pages = 3
   \<and> length (filter fetch_fails wiki_pages) = 1
   \<and> filter (\<lambda>v. \<not> snd v) wiki_pages = []
   \<and> files_written (scrape_pages None wiki_pages) = 2
   \<and> error_count (scrape_pages None wiki_pages) = 1"
proof -
  have m: "length (filter fetch_fails wiki_pages) = 1"
    by (simp add: wiki_pages_def fetch_fails_def get_page_content_def)
  have w: "\<forall>v \<in> set wiki_pages. snd v" by (simp add: wiki_pages_def)
  have n: "length wiki_pages = 3" by (simp add: wiki_pages_def)
  have nw: "filter (\<lambda>v. \<not> snd v) wiki_pages = []" by (simp add: wiki_pages_def)
  from export_counts[of None wiki_pages, OF _ w] m n nw show ?thesis by simp
qed

section \<open>Theorems on the uploader\<close>

subsection \<open>The candidate files\<close>

lemma is_file_entry:
  "is_file (Directory entries) [name] = (map_of entries name = Some RegularFile)"
  by (simp add: is_file_def split: option.splits)

text \<open>
  Claim C7: for every documents directory, the candidate files are exactly the paths of one
  component (the entries of the directory itself) that resolve to a regular file and whose
  suffix, in lower case, is one of \<^verbatim>\<open>.txt .md .pdf .docx .doc .html .htm\<close>. A file inside
  a subdirectory has a path of two components or more, and a file with another suffix fails
  the test, so neither is ever a candidate. The suffix is the one pathlib gives.
\<close>

theorem candidate_files_exact:
  "\<exists>files. candidate_files (Directory entries) = Inr files
     \<and> set files = {p. length p = 1 \<and> is_file (Directory entries) p
                        \<and> lower (path_suffix p) \<in> set extensions}"
proof -
  let ?keep = "\<lambda>p. is_file (Directory entries) p \<and> lower (path_suffix p) \<in> set extensions"
  let ?files = "filter ?keep (map (\<lambda>entry. [fst entry]) entries)"
  have c: "candidate_files (Directory entries) = Inr ?files"
    by (simp add: candidate_files_def)
  have "set ?files = {p. length p = 1 \<and> ?keep p}"
  proof (intro set_eqI iffI)
    fix p assume "p \<in> set ?files"
    then show "p \<in> {p. length p = 1 \<and> ?keep p}" by auto
  next
    fix p assume "p \<in> {p. length p = 1 \<and> ?keep p}"
    then have len: "length p = 1" and keep: "?keep p" by simp_all
    from len obtain name where p: "p = [name]"
      by (cases p) simp_all
    from keep p have "map_of entries name = Some RegularFile"
      by (simp add: is_file_entry)
    then have "(name, RegularFile) \<in> set entries" by (rule map_of_SomeD)
    then have "[name] \<in> set (map (\<lambda>entry. [fst entry]) entries)" by force
    with keep p show "p \<in> set ?files" by simp
  qed
  with c show ?thesis by blast
qed

theorem candidate_files_exact_witness:
  "candidate_files sample_docs = Inr [[''a.txt''], [''b.md''], [''Report.PDF'']]
   \<and> set [[''a.txt''], [''b.md''], [''Report.PDF'']]
       = {p. length p = 1 \<and> is_file sample_docs p \<and> lower (path_suffix p) \<in> set extensions}"
proof -
  have run: "candidate_files sample_docs = Inr [[''a.txt''], [''b.md''], [''Report.PDF'']]"
    by code_simp
  obtain files where "candidate_files sample_docs = Inr files"
    and "set files
           = {p. length p = 1 \<and> is_file sample_docs p \<and> lower (path_suffix p) \<in> set extensions}"
    using candidate_files_exact[of "[(''a.txt'', RegularFile), (''b.md'', RegularFile),
      (''c.exe'', RegularFile), (''Report.PDF'', RegularFile), (''.txt'', RegularFile),
      (''notes.txt'', Directory [(''d.txt'', RegularFile)]),
      (''old'', Directory [(''e.html'', RegularFile)])]"]
    unfolding sample_docs_def by blast
  with run show ?thesis by simp
qed

subsection \<open>The upload loop\<close>

lemmas upload_defs =
  upload_all_def upload_file_def upload_document_def doc_location_of_def
  add_document_to_workspace_def upload_log_def Let_def

text \<open>An iteration raises exactly when the expression for the location does.\<close>

lemma upload_file_raises_iff:
  "(\<exists>raised. upload_file f st = Inl raised) \<longleftrightarrow>
     truthy (upload_document f) \<and> (\<exists>e. doc_location_of (upload_document f) = Inl e)"
  by (auto simp: upload_file_def Let_def split: sum.splits)

text \<open>
  Claim C1: a failure while processing one file (a failed upload, a malformed or empty
  upload response, a failed embedding) never ends the process; the loop goes on to the
  next file. The code does otherwise for one malformed response: when the service answers
  with an empty list of documents, \<^verbatim>\<open>[0]\<close> raises IndexError outside of any handler. Here
  the run ends at the first file, and the second file is never uploaded.
\<close>

theorem upload_empty_documents_raises:
  "upload_all [no_documents_file ''a.txt'', accepted_file ''b.txt'' ''custom-documents/b.json'']
     = Inl (IndexError, \<lparr>uploaded = 1, embedded = 0, upload_events = [Uploading ''a.txt'']\<rparr>)"
  by (simp add: upload_defs no_documents_file_def accepted_file_def)

text \<open>An iteration that goes past the upload and does not raise ends with the pause.\<close>

lemma upload_file_sleeps_after_upload:
  "truthy (upload_document f) \<Longrightarrow> upload_file f st = Inr st' \<Longrightarrow>
   upload_events st' \<noteq> [] \<and> last (upload_events st') = Sleep (1/2)"
  by (auto simp: upload_file_def upload_log_def Let_def split: sum.splits if_splits)

text \<open>
  Claim C9: after each candidate file, whether its upload succeeded or failed, the loop
  pauses before it processes the next file. The code does otherwise after a failed upload:
  \<^verbatim>\<open>continue\<close> leaves the iteration before \<^verbatim>\<open>time.sleep(0.5)\<close>. Here the first upload fails,
  and the second upload follows it with no pause in between.
\<close>

theorem upload_failure_skips_sleep:
  "upload_all [failed_file ''a.txt'', accepted_file ''b.txt'' ''custom-documents/b.json'']
     = Inr \<lparr>uploaded = 1, embedded = 1,
            upload_events = [Uploading ''a.txt'', Uploading ''b.txt'',
                             Embedding (JStr ''custom-documents/b.json''), Sleep (1/2)]\<rparr>"
  by (simp add: upload_defs failed_file_def accepted_file_def)

lemma upload_file_step:
  "uploaded st \<le> uploaded (state_of (upload_file f st))
   \<and> uploaded (state_of (upload_file f st)) \<le> uploaded st + 1
   \<and> embedded st \<le> embedded (state_of (upload_file f st))
   \<and> embedded (state_of (upload_file f st)) \<le> embedded st + 1
   \<and> embedded (state_of (upload_file f st)) - embedded st
       \<le> uploaded (state_of (upload_file f st)) - uploaded st"
  by (simp add: upload_file_def upload_log_def Let_def split: sum.splits)

text \<open>
  The run over a list of files followed by more files is the run over the list, continued
  unless it raised: the state after \<open>k\<close> iterations is where the run over the first \<open>k\<close>
  files ends.
\<close>

lemma upload_loop_append:
  "upload_loop (xs @ ys) st =
     (case upload_loop xs st of Inl raised \<Rightarrow> Inl raised | Inr st' \<Rightarrow> upload_loop ys st')"
  by (induction xs arbitrary: st) (simp_all split: sum.splits)

lemma upload_loop_bounds:
  "uploaded st \<le> uploaded (state_of (upload_loop files st))
   \<and> uploaded (state_of (upload_loop files st)) \<le> uploaded st + int (length files)
   \<and> embedded st \<le> embedded (state_of (upload_loop files st))
   \<and> embedded (state_of (upload_loop files st)) - embedded st
       \<le> uploaded (state_of (upload_loop files st)) - uploaded st"
proof (induction files arbitrary: st)
  case Nil
  show ?case by simp
next
  case (Cons f files)
  show ?case
  proof (cases "upload_file f st")
    case (Inl raised)
    with upload_file_step[of st f] show ?thesis by (cases raised) simp
  next
    case (Inr st')
    with upload_file_step[of st f] Cons.IH[of st'] show ?thesis by simp
  qed
qed

lemma upload_loop_next:
  "uploaded (state_of (upload_loop files st)) \<le> uploaded (state_of (upload_loop (files @ [f]) st))
   \<and> uploaded (state_of (upload_loop (files @ [f]) st)) \<le> uploaded (state_of (upload_loop files st)) + 1
   \<and> embedded (state_of (upload_loop files st)) \<le> embedded (state_of (upload_loop (files @ [f]) st))
   \<and> embedded (state_of (upload_loop (files @ [f]) st)) \<le> embedded (state_of (upload_loop files st)) + 1"
proof (cases "upload_loop files st")
  case (Inl raised)
  then show ?thesis by (simp add: upload_loop_append)
next
  case (Inr st')
  have "upload_loop (files @ [f]) st = upload_file f st'"
    by (simp add: upload_loop_append Inr split: sum.splits)
  with Inr upload_file_step[of st' f] show ?thesis by simp
qed

text \<open>
  Claim C10: throughout a run of the upload loop, \<open>0 \<le> embedded \<le> uploaded \<le>\<close> the number
  of candidate files, and from one iteration to the next each counter stays or grows by 1.
  The state after \<open>k\<close> iterations is \<open>state_of (upload_all (take k files))\<close>, which is also
  the state an uncaught exception leaves when the run ends before that.
\<close>

theorem upload_counters_invariant:
  "0 \<le> embedded (state_of (upload_all (take k files)))
   \<and> embedded (state_of (upload_all (take k files))) \<le> uploaded (state_of (upload_all (take k files)))
   \<and> uploaded (state_of (upload_all (take k files))) \<le> int (length files)
   \<and> uploaded (state_of (upload_all (take k files))) \<le> uploaded (state_of (upload_all (take (Suc k) files)))
   \<and> uploaded (state_of (upload_all (take (Suc k) files))) \<le> uploaded (state_of (upload_all (take k files))) + 1
   \<and> embedded (state_of (upload_all (take k files))) \<le> embedded (state_of (upload_all (take (Suc k) files)))
   \<and> embedded (state_of (upload_all (take (Suc k) files))) \<le> embedded (state_of (upload_all (take k files))) + 1"
proof -
  let ?init = "\<lparr>uploaded = 0, embedded = 0, upload_events = []\<rparr>"
  have "length (take k files) \<le> length files" by simp
  with upload_loop_bounds[of ?init "take k files"]
  have inv: "0 \<le> embedded (state_of (upload_all (take k files)))
    \<and> embedded (state_of (upload_all (take k files))) \<le> uploaded (state_of (upload_all (take k files)))
    \<and> uploaded (state_of (upload_all (take k files))) \<le> int (length files)"
    unfolding upload_all_def by (simp add: min_def split: if_splits)
  have step: "uploaded (state_of (upload_all (take k files))) \<le> uploaded (state_of (upload_all (take (Suc k) files)))
   \<and> uploaded (state_of (upload_all (take (Suc k) files))) \<le> uploaded (state_of (upload_all (take k files))) + 1
   \<and> embedded (state_of (upload_all (take k files))) \<le> embedded (state_of (upload_all (take (Suc k) files)))
   \<and> embedded (state_of (upload_all (take (Suc k) files))) \<le> embedded (state_of (upload_all (take k files))) + 1"
  proof (cases "k < length files")
    case True
    then have "take (Suc k) files = take k files @ [files ! k]"
      by (rule take_Suc_conv_app_nth)
    then show ?thesis
      unfolding upload_all_def using upload_loop_next[of "take k files" ?init "files ! k"] by simp
  next
    case False
    then have "take (Suc k) files = take k files" by simp
    then show ?thesis by simp
  qed
  from inv step show ?thesis by simp
qed

theorem upload_counters_invariant_witness:
  "state_of (upload_all (take 1 [accepted_file ''a.txt'' ''x'', failed_file ''b.md'']))
     = \<lparr>uploaded = 1, embedded = 1,
        upload_events = [Uploading ''a.txt'', Embedding (JStr ''x''), Sleep (1/2)]\<rparr>
   \<and> uploaded (state_of (upload_all (take 1 [accepted_file ''a.txt'' ''x'', failed_file ''b.md''])))
       \<le> int (length [accepted_file ''a.txt'' ''x'', failed_file ''b.md''])
   \<and> uploaded (state_of (upload_all (take (Suc 1) [accepted_file ''a.txt'' ''x'', failed_file ''b.md''])))
       \<le> uploaded (state_of (upload_all (take 1 [accepted_file ''a.txt'' ''x'', failed_file ''b.md'']))) + 1"
proof -
  have "state_of (upload_all (take 1 [accepted_file ''a.txt'' ''x'', failed_file ''b.md'']))
     = \<lparr>uploaded = 1, embedded = 1,
        upload_events = [Uploading ''a.txt'', Embedding (JStr ''x''), Sleep (1/2)]\<rparr>"
    by (simp add: upload_defs failed_file_def accepted_file_def)
  with upload_counters_invariant[of 1 "[accepted_file ''a.txt'' ''x'', failed_file ''b.md'']"]
  show ?thesis by simp
qed

end
